theory Spec2Isabelle
  imports Complex_Main
begin

section \<open>Python values used by app.py\<close>

subsection \<open>Floats\<close>

text \<open>
  A Python \<open>float\<close> is an IEEE-754 double. A finite double is represented by the real number
  it denotes (the two zeros are identified: they compare equal in Python); the three special
  values are constructors of their own. Comparison of doubles is comparison of the reals
  they denote, and every comparison with \<open>nan\<close> is false.
\<close>

datatype pyfloat = NaN | NInf | Fin real | PInf

fun py_lt :: "pyfloat \<Rightarrow> pyfloat \<Rightarrow> bool" where
  "py_lt NaN _ = False"
| "py_lt _ NaN = False"
| "py_lt _ NInf = False"
| "py_lt NInf _ = True"
| "py_lt PInf _ = False"
| "py_lt (Fin a) (Fin b) = (a < b)"
| "py_lt (Fin a) PInf = True"

definition py_le :: "pyfloat \<Rightarrow> pyfloat \<Rightarrow> bool" where
  "py_le a b = (py_lt a b \<or> (a \<noteq> NaN \<and> a = b))"

text \<open>
  The builtins \<open>min(a, b)\<close> and \<open>max(a, b)\<close> keep their first argument unless the second
  one is strictly smaller (strictly greater): \<open>min(10.0, nan)\<close> is \<open>10.0\<close>.
\<close>

definition py_min :: "pyfloat \<Rightarrow> pyfloat \<Rightarrow> pyfloat" where
  "py_min a b = (if py_lt b a then b else a)"

definition py_max :: "pyfloat \<Rightarrow> pyfloat \<Rightarrow> pyfloat" where
  "py_max a b = (if py_lt a b then b else a)"

text \<open>\<open>int.bit_length()\<close> of a non-negative integer.\<close>

fun bit_length :: "nat \<Rightarrow> nat" where
  "bit_length n = (if n = 0 then 0 else Suc (bit_length (n div 2)))"

declare bit_length.simps [simp del]

text \<open>
  IEEE-754 rounding of a real number to a double: to the nearest double, ties to even, to an
  infinity from \<open>2 ^ 1024\<close> on. The magnitude is taken in units of the smallest subnormal,
  \<open>2 ^ -1074\<close>, so that every finite double is an integer \<open>n < 2 ^ 2098\<close> of at most 53
  significant bits; around a magnitude of bit length \<open>l\<close> the doubles are the multiples of
  \<open>2 ^ (l - 53)\<close> (of \<open>1\<close> up to 53 bits, which covers the subnormals).
\<close>

definition round_double :: "real \<Rightarrow> pyfloat" where
  "round_double x =
     (let s = \<bar>x\<bar> * 2 ^ 1074;
          k = bit_length (nat \<lfloor>s\<rfloor>) - 53;
          q = nat \<lfloor>s / 2 ^ k\<rfloor>;
          r = s - real q * 2 ^ k;
          m = (if 2 * r > 2 ^ k \<or> (2 * r = 2 ^ k \<and> odd q) then (q + 1) * 2 ^ k else q * 2 ^ k)
      in if m \<ge> 2 ^ 2098 then (if x < 0 then NInf else PInf)
         else Fin ((if x < 0 then - real m else real m) / 2 ^ 1074))"

text \<open>The reals that are doubles: a whole number of units, nothing below the top 53 bits.\<close>

definition is_double :: "real \<Rightarrow> bool" where
  "is_double x =
     (let s = \<bar>x\<bar> * 2 ^ 1074;
          n = nat \<lfloor>s\<rfloor>
      in s = real n \<and> n mod 2 ^ (bit_length n - 53) = 0 \<and> n < 2 ^ 2098)"

text \<open>
  Float addition \<open>a + b\<close>. The special values follow IEEE-754. The sum of two finite doubles
  is the exact real sum rounded to a double by \<open>rnd\<close>. The routes are modelled for any
  rounding; the interpreter's is \<open>round_double\<close>.
\<close>

fun py_add :: "(real \<Rightarrow> pyfloat) \<Rightarrow> pyfloat \<Rightarrow> pyfloat \<Rightarrow> pyfloat" where
  "py_add rnd NaN _ = NaN"
| "py_add rnd _ NaN = NaN"
| "py_add rnd PInf NInf = NaN"
| "py_add rnd NInf PInf = NaN"
| "py_add rnd PInf _ = PInf"
| "py_add rnd _ PInf = PInf"
| "py_add rnd NInf _ = NInf"
| "py_add rnd _ NInf = NInf"
| "py_add rnd (Fin a) (Fin b) = rnd (a + b)"

subsection \<open>Exceptions\<close>

text \<open>
  The exceptions that can leave a route. \<open>BadRequest\<close> and \<open>UnsupportedMediaType\<close> are the
  HTTP exceptions that \<open>request.get_json()\<close> raises.
\<close>

datatype py_error =
  AttributeError | TypeError | ValueError | OverflowError | BadRequest | UnsupportedMediaType

subsection \<open>Integers to floats\<close>

text \<open>
  \<open>float(n)\<close> for a Python \<open>int\<close>: the integer is rounded to 53 significant bits, ties to
  even; a result of magnitude \<open>2 ^ 1024\<close> or more raises \<open>OverflowError\<close>
  (``int too large to convert to float'').
\<close>

definition round53 :: "nat \<Rightarrow> nat" where
  "round53 a =
     (let k = bit_length a - 53;
          q = a div 2 ^ k;
          r = a mod 2 ^ k
      in if 2 * r > 2 ^ k \<or> (2 * r = 2 ^ k \<and> odd q) then (q + 1) * 2 ^ k else q * 2 ^ k)"

definition py_float_of_int :: "int \<Rightarrow> py_error + pyfloat" where
  "py_float_of_int n =
     (let m = round53 (nat \<bar>n\<bar>)
      in if m \<ge> 2 ^ 1024 then Inl OverflowError
         else Inr (Fin (if n < 0 then - real m else real m)))"

subsection \<open>JSON values\<close>

text \<open>
  The value of a JSON text in Python: \<open>null\<close> is \<open>None\<close>, a JSON number without fraction or
  exponent is an \<open>int\<close>, any other number a \<open>float\<close> (\<open>1e400\<close> parses to \<open>inf\<close>, and the
  parser accepts \<open>NaN\<close> and \<open>Infinity\<close>), an object is a \<open>dict\<close> given by its items.
\<close>

datatype json =
    JNull
  | JBool bool
  | JInt int
  | JFloat pyfloat
  | JStr string
  | JList "json list"
  | JObj "(string \<times> json) list"

text \<open>
  The body of a request: sent with another content type than JSON, or bytes that are no JSON
  text, or a JSON text, given by the value it denotes.
\<close>

datatype request_body = NotJsonType | Malformed | JsonText json

text \<open>
  The parser converts an integer literal with \<open>int()\<close>, which refuses a literal of more
  than \<open>sys.int_info.default_max_str_digits\<close> digits with a \<open>ValueError\<close>.
\<close>

definition default_max_str_digits :: nat where
  "default_max_str_digits = 4300"

fun int_digits_ok :: "json \<Rightarrow> bool" where
  "int_digits_ok (JInt n) = (\<bar>n\<bar> < 10 ^ default_max_str_digits)"
| "int_digits_ok (JList xs) = list_all int_digits_ok xs"
| "int_digits_ok (JObj kvs) = list_all int_digits_ok (map snd kvs)"
| "int_digits_ok _ = True"

text \<open>
  \<open>request.get_json()\<close>: another content type aborts the request with
  \<open>UnsupportedMediaType\<close>, a parser error with \<open>BadRequest\<close>; otherwise the parsed
  value is returned.
\<close>

fun get_json :: "request_body \<Rightarrow> py_error + json" where
  "get_json NotJsonType = Inl UnsupportedMediaType"
| "get_json Malformed = Inl BadRequest"
| "get_json (JsonText d) = (if int_digits_ok d then Inr d else Inl BadRequest)"

text \<open>
  \<open>data.get(key)\<close>: only a \<open>dict\<close> has the method; a missing key gives \<open>None\<close>.
\<close>

fun dict_get :: "json \<Rightarrow> string \<Rightarrow> py_error + json" where
  "dict_get (JObj kvs) k = Inr (case map_of kvs k of None \<Rightarrow> JNull | Some v \<Rightarrow> v)"
| "dict_get _ k = Inl AttributeError"

text \<open>
  \<open>float(x)\<close> on a parsed JSON value. A \<open>bool\<close> is an \<open>int\<close> in Python. For a \<open>str\<close> the
  interpreter's own parser decides; it is the parameter \<open>float_of_str\<close> (\<open>None\<close>: the string
  is no float literal and \<open>ValueError\<close> is raised).
\<close>

fun py_float :: "(string \<Rightarrow> pyfloat option) \<Rightarrow> json \<Rightarrow> py_error + pyfloat" where
  "py_float float_of_str JNull = Inl TypeError"
| "py_float float_of_str (JBool b) = py_float_of_int (if b then 1 else 0)"
| "py_float float_of_str (JInt n) = py_float_of_int n"
| "py_float float_of_str (JFloat x) = Inr x"
| "py_float float_of_str (JStr s) =
     (case float_of_str s of None \<Rightarrow> Inl ValueError | Some x \<Rightarrow> Inr x)"
| "py_float float_of_str (JList xs) = Inl TypeError"
| "py_float float_of_str (JObj kvs) = Inl TypeError"

section \<open>The module's globals\<close>

text \<open>
  The sensor handles are opaque driver objects; neither class defines \<open>__bool__\<close> or
  \<open>__len__\<close>, so a handle is truthy and only \<open>None\<close> is falsy. \<open>state\<close> is the dict
  \<open>{'calibration_offset': 0.0}\<close>: it has this one key throughout, and the field below is
  the value stored under it.
\<close>

datatype W1ThermSensor = W1ThermSensor
datatype DigitalInputDevice = DigitalInputDevice nat

record globals =
  temp_sensor :: "W1ThermSensor option"
  soil_sensor :: "DigitalInputDevice option"
  state :: pyfloat

definition SOIL_SENSOR_PIN :: nat where
  "SOIL_SENSOR_PIN = 17"

text \<open>
  Sensor initialization at import time. The arguments are what the two driver constructors
  do: \<open>None\<close> when the call raises an \<open>Exception\<close>. The second constructor runs only when the
  first one returned, and the \<open>except\<close> branch resets both names.
\<close>

definition sensor_initialization ::
  "W1ThermSensor option \<Rightarrow> (nat \<Rightarrow> DigitalInputDevice option) \<Rightarrow> globals" where
  "sensor_initialization new_temp new_soil =
     (let g = \<lparr>temp_sensor = None, soil_sensor = None, state = Fin 0\<rparr>
      in case new_temp of
           None \<Rightarrow> g\<lparr>temp_sensor := None, soil_sensor := None\<rparr>
         | Some t \<Rightarrow>
             (case new_soil SOIL_SENSOR_PIN of
                None \<Rightarrow> g\<lparr>temp_sensor := Some t\<rparr>\<lparr>temp_sensor := None, soil_sensor := None\<rparr>
              | Some s \<Rightarrow> g\<lparr>temp_sensor := Some t\<rparr>\<lparr>soil_sensor := Some s\<rparr>))"

section \<open>The API routes\<close>

text \<open>
  A response is a body and an HTTP status (200 when the handler returns the body alone).
\<close>

datatype body =
    Data (temperature: "pyfloat option") (is_wet: "bool option") (calibration_offset: pyfloat)
  | Status string
  | Html

type_synonym response = "body \<times> nat"

text \<open>
  What the hardware does during one request: the result of \<open>temp_sensor.get_temperature()\<close>
  and of \<open>soil_sensor.is_active\<close>, \<open>None\<close> when the call raises.
\<close>

record readings =
  get_temperature :: "pyfloat option"
  is_active :: "bool option"

text \<open>\<open>GET /data\<close>. Each read has its own \<open>try\<close> with a bare \<open>except\<close>.\<close>

definition get_sensor_data :: "(real \<Rightarrow> pyfloat) \<Rightarrow> globals \<Rightarrow> readings \<Rightarrow> py_error + response" where
  "get_sensor_data rnd g hw =
     (let (calibrated_temp, wet) =
            (if temp_sensor g \<noteq> None \<and> soil_sensor g \<noteq> None then
               ((case get_temperature hw of
                   Some raw_temp \<Rightarrow> Some (py_add rnd raw_temp (state g))
                 | None \<Rightarrow> None),
                (case is_active hw of
                   Some a \<Rightarrow> Some (\<not> a)
                 | None \<Rightarrow> None))
             else (Some (Fin 20), Some False))
      in Inr (Data calibrated_temp wet (state g), 200))"

text \<open>
  \<open>POST /calibrate\<close>. The result is the response or the exception that leaves the handler,
  and the globals afterwards. The handler has no \<open>try\<close>: an exception of
  \<open>request.get_json()\<close>, of \<open>data.get\<close> or of \<open>float(offset)\<close> is raised before the
  assignment to \<open>state\<close>. Writing the log line with \<open>print\<close> is taken to succeed.
\<close>

definition set_calibration ::
  "(string \<Rightarrow> pyfloat option) \<Rightarrow> globals \<Rightarrow> request_body
     \<Rightarrow> (py_error + response) \<times> globals" where
  "set_calibration float_of_str g body =
     (case get_json body of
        Inl e \<Rightarrow> (Inl e, g)
      | Inr data \<Rightarrow>
          (case dict_get data ''offset'' of
             Inl e \<Rightarrow> (Inl e, g)
           | Inr offset \<Rightarrow>
               if offset \<noteq> JNull then
                 (case py_float float_of_str offset of
                    Inl e \<Rightarrow> (Inl e, g)
                  | Inr x \<Rightarrow>
                      (Inr (Status ''success'', 200),
                       g\<lparr>state := py_max (Fin (- 10)) (py_min (Fin 10) x)\<rparr>))
               else (Inr (Status ''error'', 400), g)))"

text \<open>\<open>GET /\<close> serves the static page.\<close>

definition index :: "py_error + response" where
  "index = Inr (Html, 200)"

text \<open>
  The status of the HTTP response that the framework sends for a handler's outcome: the
  handler's own status, the code of an HTTP exception, and 500 for any other exception.
\<close>

fun flask_status :: "py_error + response \<Rightarrow> nat" where
  "flask_status (Inr (b, st)) = st"
| "flask_status (Inl BadRequest) = 400"
| "flask_status (Inl UnsupportedMediaType) = 415"
| "flask_status (Inl e) = 500"

subsection \<open>The server as a state machine\<close>

datatype request = GetData readings | PostCalibrate request_body | GetIndex

fun handle ::
  "(real \<Rightarrow> pyfloat) \<Rightarrow> (string \<Rightarrow> pyfloat option) \<Rightarrow> globals \<Rightarrow> request
     \<Rightarrow> (py_error + response) \<times> globals" where
  "handle rnd float_of_str g (GetData hw) = (get_sensor_data rnd g hw, g)"
| "handle rnd float_of_str g (PostCalibrate body) = set_calibration float_of_str g body"
| "handle rnd float_of_str g GetIndex = (index, g)"

text \<open>The globals after a sequence of requests, served one after the other.\<close>

fun serve ::
  "(real \<Rightarrow> pyfloat) \<Rightarrow> (string \<Rightarrow> pyfloat option) \<Rightarrow> globals \<Rightarrow> request list \<Rightarrow> globals" where
  "serve rnd float_of_str g [] = g"
| "serve rnd float_of_str g (r # rs) =
     serve rnd float_of_str (snd (handle rnd float_of_str g r)) rs"

text \<open>The operating mode is the test \<open>temp_sensor and soil_sensor\<close> of \<open>get_sensor_data\<close>.\<close>

datatype mode = Ready | FallbackMode

definition mode_of :: "globals \<Rightarrow> mode" where
  "mode_of g = (if temp_sensor g \<noteq> None \<and> soil_sensor g \<noteq> None then Ready else FallbackMode)"

text \<open>The clamping expression of \<open>set_calibration\<close>, \<open>max(-10.0, min(10.0, x))\<close>.\<close>

abbreviation clamped :: "pyfloat \<Rightarrow> pyfloat" where
  "clamped x \<equiv> py_max (Fin (- 10)) (py_min (Fin 10) x)"

section \<open>Basic facts\<close>

lemma clamped_Fin: "\<exists>r. clamped x = Fin r \<and> - 10 \<le> r \<and> r \<le> 10"
  by (cases x) (simp_all add: py_max_def py_min_def)

lemma clamped_in_range: "py_le (Fin (- 10)) (clamped x) \<and> py_le (clamped x) (Fin 10)"
proof -
  obtain r where "clamped x = Fin r" "- 10 \<le> r" "r \<le> 10"
    using clamped_Fin by blast
  then show ?thesis by (auto simp: py_le_def)
qed

lemma set_calibration_state:
  "state (snd (set_calibration fos g data)) = state g \<or>
   (\<exists>x. state (snd (set_calibration fos g data)) = clamped x)"
  by (auto simp: set_calibration_def split: sum.splits)

lemma set_calibration_sensors:
  "temp_sensor (snd (set_calibration fos g data)) = temp_sensor g \<and>
   soil_sensor (snd (set_calibration fos g data)) = soil_sensor g"
  by (simp add: set_calibration_def split: sum.splits)

lemma handle_sensors:
  "temp_sensor (snd (handle rnd fos g r)) = temp_sensor g \<and>
   soil_sensor (snd (handle rnd fos g r)) = soil_sensor g"
  by (cases r) (simp_all add: set_calibration_sensors)

lemma serve_sensors:
  "temp_sensor (serve rnd fos g rs) = temp_sensor g \<and>
   soil_sensor (serve rnd fos g rs) = soil_sensor g"
  by (induction rs arbitrary: g) (simp_all add: handle_sensors)

lemma handle_in_range:
  assumes "py_le (Fin (- 10)) (state g) \<and> py_le (state g) (Fin 10)"
  shows "py_le (Fin (- 10)) (state (snd (handle rnd fos g r))) \<and>
         py_le (state (snd (handle rnd fos g r))) (Fin 10)"
proof (cases r)
  case (PostCalibrate data)
  then show ?thesis
    using assms set_calibration_state [of fos g data] clamped_in_range by auto
qed (use assms in simp_all)

lemma serve_in_range:
  "py_le (Fin (- 10)) (state g) \<and> py_le (state g) (Fin 10) \<Longrightarrow>
   py_le (Fin (- 10)) (state (serve rnd fos g rs)) \<and> py_le (state (serve rnd fos g rs)) (Fin 10)"
proof (induction rs arbitrary: g)
  case Nil
  then show ?case by simp
next
  case (Cons r rs)
  show ?case using Cons.IH [OF handle_in_range [OF Cons.prems]] by simp
qed

lemma init_state: "state (sensor_initialization new_temp new_soil) = Fin 0"
  by (simp add: sensor_initialization_def Let_def split: option.splits)

lemma init_mode:
  "mode_of (sensor_initialization new_temp new_soil) =
     (if new_temp \<noteq> None \<and> new_soil SOIL_SENSOR_PIN \<noteq> None then Ready else FallbackMode)"
  by (auto simp: sensor_initialization_def mode_of_def Let_def split: option.splits)

lemma get_sensor_data_fallback:
  "mode_of g = FallbackMode \<Longrightarrow>
   get_sensor_data rnd g hw = Inr (Data (Some (Fin 20)) (Some False) (state g), 200)"
  by (auto simp: get_sensor_data_def mode_of_def split: if_splits)

lemma get_sensor_data_ready:
  "mode_of g = Ready \<Longrightarrow>
   get_sensor_data rnd g hw =
     Inr (Data (map_option (\<lambda>raw_temp. py_add rnd raw_temp (state g)) (get_temperature hw))
               (map_option Not (is_active hw)) (state g), 200)"
  by (auto simp: get_sensor_data_def mode_of_def split: if_splits option.splits)

subsection \<open>Conversion of integers\<close>

lemma bit_length_0: "bit_length 0 = 0"
  by (simp add: bit_length.simps)

lemma bit_length_pos: "0 < n \<Longrightarrow> bit_length n = Suc (bit_length (n div 2))"
  by (subst bit_length.simps) simp

lemma bit_length_pow2: "bit_length (2 ^ k) = Suc k"
  by (induction k) (simp_all add: bit_length_pos bit_length_0)

lemma bit_length_lt: "n < 2 ^ bit_length n"
proof (induction n rule: bit_length.induct)
  case (1 n)
  show ?case
  proof (cases "n = 0")
    case True
    then show ?thesis by simp
  next
    case False
    then have "n div 2 < 2 ^ bit_length (n div 2)" using 1 by simp
    then have "n < 2 * 2 ^ bit_length (n div 2)" by linarith
    then show ?thesis using False by (simp add: bit_length_pos)
  qed
qed

lemma bit_length_ge: "0 < n \<Longrightarrow> 2 ^ (bit_length n - 1) \<le> n"
proof (induction n rule: bit_length.induct)
  case (1 n)
  show ?case
  proof (cases "n div 2 = 0")
    case True
    then have "n = 1" using 1(2) by linarith
    then show ?thesis by (simp add: bit_length_pos bit_length_0)
  next
    case False
    then have "2 ^ (bit_length (n div 2) - 1) \<le> n div 2" using 1 by simp
    moreover have "0 < bit_length (n div 2)" using False by (simp add: bit_length_pos)
    ultimately have "2 ^ bit_length (n div 2) \<le> 2 * (n div 2)"
      by (cases "bit_length (n div 2)") auto
    then have "2 ^ bit_length (n div 2) \<le> n" by linarith
    then show ?thesis using 1(2) by (simp add: bit_length_pos)
  qed
qed

lemma bit_length_le: "n < 2 ^ k \<Longrightarrow> bit_length n \<le> k"
proof (rule ccontr)
  assume n: "n < 2 ^ k" and "\<not> bit_length n \<le> k"
  then have k: "k \<le> bit_length n - 1" by simp
  then have "0 < n" using \<open>\<not> bit_length n \<le> k\<close> by (cases "n = 0") (simp_all add: bit_length_0)
  then have "2 ^ (bit_length n - 1) \<le> n" by (rule bit_length_ge)
  moreover have "(2::nat) ^ k \<le> 2 ^ (bit_length n - 1)" using k by (simp add: power_increasing)
  ultimately show False using n by linarith
qed

lemma round53_small: "a < 2 ^ 53 \<Longrightarrow> round53 a = a"
proof -
  assume "a < 2 ^ 53"
  then have "bit_length a - 53 = 0" using bit_length_le [of a 53] by simp
  then show ?thesis by (simp add: round53_def)
qed

lemma round53_large:
  assumes "2 ^ 53 \<le> a"
  shows "2 ^ 52 \<le> round53 a"
proof -
  define k where "k = bit_length a - 53"
  define q where "q = a div 2 ^ k"
  have pos: "0 < a" using assms by (simp add: less_le_trans [of 0 "2 ^ 53"])
  have "a < 2 ^ bit_length a" by (rule bit_length_lt)
  then have "53 < bit_length a"
    using assms by (metis leD leI le_less_trans power_increasing one_le_numeral)
  then have bl: "bit_length a - 1 = 52 + k" by (simp add: k_def)
  have "2 ^ (52 + k) \<le> a" using bit_length_ge [OF pos] bl by simp
  then have "(2 ^ 52 * 2 ^ k) div 2 ^ k \<le> a div 2 ^ k"
    by (intro div_le_mono) (simp add: power_add)
  then have q: "2 ^ 52 \<le> q" by (simp add: q_def)
  have "q \<le> q * 2 ^ k" by simp
  with q have lo: "2 ^ 52 \<le> q * 2 ^ k" by (rule order_trans)
  have "q * 2 ^ k \<le> (q + 1) * 2 ^ k" by simp
  with lo have up: "2 ^ 52 \<le> (q + 1) * 2 ^ k" by (rule order_trans)
  show ?thesis
    unfolding round53_def Let_def k_def [symmetric] q_def [symmetric]
    using lo up by auto
qed

lemma round53_pow2: "round53 (2 ^ (52 + k)) = 2 ^ (52 + k)"
proof -
  have k: "bit_length (2 ^ (52 + k)) - 53 = k" by (simp add: bit_length_pow2)
  have q: "(2::nat) ^ (52 + k) div 2 ^ k = 2 ^ 52" by (simp add: power_add)
  have r: "(2::nat) ^ (52 + k) mod 2 ^ k = 0" by (simp add: power_add)
  show ?thesis
    unfolding round53_def Let_def k q r by (simp add: power_add)
qed

lemma float_of_big_int: "py_float_of_int (2 ^ 1024) = Inl OverflowError"
proof -
  have a: "nat \<bar>2 ^ 1024 :: int\<bar> = 2 ^ (52 + 972)" by (simp add: nat_power_eq)
  have "round53 (nat \<bar>2 ^ 1024 :: int\<bar>) = 2 ^ 1024"
    unfolding a round53_pow2 by simp
  then show ?thesis by (simp add: py_float_of_int_def)
qed

lemma round53_lower:
  assumes "53 < bit_length a"
  shows "2 ^ (bit_length a - 1) \<le> round53 a"
proof -
  define k where "k = bit_length a - 53"
  define q where "q = a div 2 ^ k"
  have pos: "0 < a" using assms by (cases "a = 0") (simp_all add: bit_length_0)
  have bl: "bit_length a - 1 = 52 + k" using assms by (simp add: k_def)
  have "2 ^ (52 + k) \<le> a" using bit_length_ge [OF pos] bl by simp
  then have "(2 ^ 52 * 2 ^ k) div 2 ^ k \<le> a div 2 ^ k"
    by (intro div_le_mono) (simp add: power_add)
  then have "2 ^ 52 \<le> q" by (simp add: q_def)
  then have lo: "2 ^ 52 * 2 ^ k \<le> q * 2 ^ k" by (rule mult_le_mono1)
  have "q * 2 ^ k \<le> (q + 1) * 2 ^ k" by simp
  with lo have up: "2 ^ 52 * 2 ^ k \<le> (q + 1) * 2 ^ k" by (rule order_trans)
  have "2 ^ 52 * 2 ^ k \<le> round53 a"
    unfolding round53_def Let_def k_def [symmetric] q_def [symmetric]
    using lo up by auto
  then show ?thesis unfolding bl by (simp add: power_add)
qed

lemma round53_upper: "round53 a \<le> 2 ^ bit_length a"
proof (cases "53 < bit_length a")
  case False
  then have "a < 2 ^ 53"
    using bit_length_lt [of a] power_increasing [of "bit_length a" 53 "2::nat"]
    by (simp add: not_less)
  then have "round53 a = a" by (rule round53_small)
  then show ?thesis using bit_length_lt [of a] by simp
next
  case True
  define k where "k = bit_length a - 53"
  define q where "q = a div 2 ^ k"
  have bl: "bit_length a = 53 + k" using True by (simp add: k_def)
  have "a < 2 ^ 53 * 2 ^ k" using bit_length_lt [of a] by (simp add: bl power_add)
  then have "q < 2 ^ 53" unfolding q_def by (simp add: less_mult_imp_div_less)
  then have "q + 1 \<le> 2 ^ 53" by simp
  then have up: "(q + 1) * 2 ^ k \<le> 2 ^ 53 * 2 ^ k" by (rule mult_le_mono1)
  have "q * 2 ^ k \<le> (q + 1) * 2 ^ k" by simp
  then have lo: "q * 2 ^ k \<le> 2 ^ 53 * 2 ^ k" using up by (rule order_trans)
  have "round53 a \<le> 2 ^ 53 * 2 ^ k"
    unfolding round53_def Let_def k_def [symmetric] q_def [symmetric]
    using lo up by auto
  then show ?thesis by (simp add: bl power_add)
qed

lemma round53_top:
  assumes bl: "bit_length a = e + 54"
  shows "(2 ^ 54 * 2 ^ e \<le> round53 a) = (2 ^ 54 * 2 ^ e - 2 ^ e \<le> a)"
proof -
  define P :: nat where "P = 2 ^ e"
  define q where "q = a div (2 * P)"
  define r where "r = a mod (2 * P)"
  define X where "X = q * (2 * P)"
  have P: "0 < P" by (simp add: P_def)
  have k: "(2::nat) ^ (bit_length a - 53) = 2 * P" by (simp add: bl P_def)
  have a: "a = X + r" by (simp only: X_def q_def r_def div_mult_mod_eq)
  have r: "r < 2 * P" using P by (simp add: r_def)
  have "a < 2 ^ 53 * (2 * P)" using bit_length_lt [of a] by (simp add: bl P_def power_add)
  then have q: "q < 2 ^ 53" unfolding q_def by (simp add: less_mult_imp_div_less)
  have rd: "round53 a = (if 2 * P < 2 * r \<or> (2 * r = 2 * P \<and> odd q) then X + 2 * P else X)"
    unfolding round53_def Let_def k by (simp add: q_def r_def X_def)
  have eq: "(2 ^ 54 * P - P \<le> a) = (2 ^ 54 * P - P \<le> X + r)" using a by simp
  show ?thesis
  proof (cases "q = 2 ^ 53 - 1")
    case True
    then have "odd q" by simp
    moreover have "X = (2 ^ 53 - 1) * (2 * P)" using True by (simp add: X_def)
    then have "X = 2 ^ 54 * P - 2 * P" by (simp add: diff_mult_distrib)
    moreover have "2 * P \<le> 2 ^ 54 * P" by simp
    ultimately show ?thesis
      unfolding P_def [symmetric] rd eq using r P by auto
  next
    case False
    then have "q + 1 \<le> 2 ^ 53 - 1" using q by simp
    then have "(q + 1) * (2 * P) \<le> (2 ^ 53 - 1) * (2 * P)" by (rule mult_le_mono1)
    then have "X + 2 * P \<le> 2 ^ 54 * P - 2 * P" by (simp add: X_def diff_mult_distrib)
    moreover have "2 * P \<le> 2 ^ 54 * P" by simp
    ultimately show ?thesis
      unfolding P_def [symmetric] rd eq using r P by auto
  qed
qed

lemma round53_overflow_iff:
  "(2 ^ 54 * 2 ^ e \<le> round53 a) = (2 ^ 54 * 2 ^ e - 2 ^ e \<le> a)"
proof -
  define P :: nat where "P = 2 ^ e"
  have P: "0 < P" by (simp add: P_def)
  have T: "(2::nat) ^ (e + 54) = 2 ^ 54 * P" by (simp add: P_def power_add)
  have H: "(2::nat) ^ (e + 53) = 2 ^ 53 * P" by (simp add: P_def power_add)
  consider "bit_length a \<le> e + 53" | "bit_length a = e + 54" | "e + 54 < bit_length a"
    by linarith
  then show ?thesis
  proof cases
    case 1
    then have "(2::nat) ^ bit_length a \<le> 2 ^ (e + 53)" by (simp add: power_increasing)
    then have b: "2 ^ bit_length a \<le> 2 ^ 53 * P" by (simp only: H)
    have "round53 a \<le> 2 ^ 53 * P" using round53_upper [of a] b by (rule order_trans)
    moreover have "a < 2 ^ 53 * P" using bit_length_lt [of a] b by (rule less_le_trans)
    ultimately show ?thesis unfolding P_def [symmetric] using P by auto
  next
    case 2
    then show ?thesis by (rule round53_top)
  next
    case 3
    then have l: "e + 54 \<le> bit_length a - 1" and "53 < bit_length a" by simp_all
    then have "2 ^ (bit_length a - 1) \<le> round53 a" by (intro round53_lower)
    moreover have "0 < a" using 3 by (cases "a = 0") (simp_all add: bit_length_0)
    then have "2 ^ (bit_length a - 1) \<le> a" by (rule bit_length_ge)
    moreover have "(2::nat) ^ (e + 54) \<le> 2 ^ (bit_length a - 1)"
      using l by (simp add: power_increasing)
    then have "2 ^ 54 * P \<le> 2 ^ (bit_length a - 1)" by (simp only: T)
    ultimately show ?thesis unfolding P_def [symmetric] by auto
  qed
qed

lemma float_of_int_overflow_iff:
  "(py_float_of_int n = Inl OverflowError) = (2 ^ 1024 - 2 ^ 970 \<le> \<bar>n\<bar>)"
proof -
  have "(2 ^ 1024 \<le> round53 (nat \<bar>n\<bar>)) = (2 ^ 1024 - 2 ^ 970 \<le> nat \<bar>n\<bar>)"
    using round53_overflow_iff [of 970 "nat \<bar>n\<bar>"] by (simp flip: power_add)
  also have "\<dots> = (int (2 ^ 1024 - 2 ^ 970) \<le> \<bar>n\<bar>)" by linarith
  also have "int (2 ^ 1024 - 2 ^ 970) = 2 ^ 1024 - 2 ^ 970" by (simp add: of_nat_diff)
  finally show ?thesis by (simp add: py_float_of_int_def Let_def)
qed

subsection \<open>Rounding to doubles\<close>

lemma bit_length_mult_pow2_le: "m < 2 ^ 53 \<Longrightarrow> bit_length (m * 2 ^ i) - 53 \<le> i"
proof -
  assume "m < 2 ^ 53"
  then have "m * 2 ^ i < 2 ^ 53 * 2 ^ i" by simp
  then have "m * 2 ^ i < 2 ^ (53 + i)" by (simp only: power_add)
  then have "bit_length (m * 2 ^ i) \<le> 53 + i" by (rule bit_length_le)
  then show ?thesis by simp
qed

lemma is_double_of_units:
  assumes "\<bar>x\<bar> * 2 ^ 1074 = real n" and "n mod 2 ^ (bit_length n - 53) = 0" and "n < 2 ^ 2098"
  shows "is_double x"
  unfolding is_double_def Let_def assms(1) using assms(2,3) by simp

lemma is_double_mantissa:
  assumes m: "m < 2 ^ 53" and i: "i \<le> 2045" and x: "\<bar>x\<bar> * 2 ^ 1074 = real (m * 2 ^ i)"
  shows "is_double x"
proof (rule is_double_of_units [OF x])
  have "bit_length (m * 2 ^ i) - 53 \<le> i" using m by (rule bit_length_mult_pow2_le)
  then have "(2::nat) ^ (bit_length (m * 2 ^ i) - 53) dvd 2 ^ i" by (rule le_imp_power_dvd)
  then have "2 ^ (bit_length (m * 2 ^ i) - 53) dvd m * 2 ^ i" by (rule dvd_mult)
  then show "m * 2 ^ i mod 2 ^ (bit_length (m * 2 ^ i) - 53) = 0" by simp
  have "m * 2 ^ i < 2 ^ 53 * 2 ^ i" using m by simp
  also have "(2::nat) ^ 53 * 2 ^ i \<le> 2 ^ 53 * 2 ^ 2045"
    using i by (intro mult_le_mono2 power_increasing) simp_all
  also have "(2::nat) ^ 53 * 2 ^ 2045 = 2 ^ 2098" by (simp flip: power_add)
  finally show "m * 2 ^ i < 2 ^ 2098" .
qed

lemma round_double_exact:
  assumes "is_double x"
  shows "round_double x = Fin x"
proof -
  define n where "n = nat \<lfloor>\<bar>x\<bar> * 2 ^ 1074\<rfloor>"
  define k where "k = bit_length n - 53"
  have s: "\<bar>x\<bar> * 2 ^ 1074 = real n"
    and md: "n mod 2 ^ k = 0" and lt: "n < 2 ^ 2098"
    using assms by (simp_all add: is_double_def Let_def n_def k_def)
  have fl: "nat \<lfloor>real n\<rfloor> = n" by simp
  have "\<lfloor>real n / real (2 ^ k)\<rfloor> = int (n div 2 ^ k)" by (rule floor_divide_of_nat_eq)
  then have q: "nat \<lfloor>real n / 2 ^ k\<rfloor> = n div 2 ^ k" by simp
  have "n = n div 2 ^ k * 2 ^ k" using md by (simp add: mod_eq_0_iff_dvd)
  then have qk: "n div 2 ^ k * 2 ^ k = n" by simp
  have "real (n div 2 ^ k) * 2 ^ k = real (n div 2 ^ k * 2 ^ k)" by simp
  then have r: "real n - real (n div 2 ^ k) * 2 ^ k = 0" by (simp only: qk)
  have v: "(if x < 0 then - real n else real n) / 2 ^ 1074 = x"
  proof (cases "x < 0")
    case True
    then have "- x * 2 ^ 1074 = real n" using s by simp
    then have "x = - real n / 2 ^ 1074" by (simp add: field_simps)
    then show ?thesis using True by simp
  next
    case False
    then have "x * 2 ^ 1074 = real n" using s by simp
    then have "x = real n / 2 ^ 1074" by (simp add: field_simps)
    then show ?thesis using False by simp
  qed
  show ?thesis
    unfolding round_double_def Let_def s fl k_def [symmetric] q r qk
    using lt v by (auto split: if_splits)
qed


lemma bit_length_eq: "2 ^ j \<le> n \<Longrightarrow> n < 2 ^ Suc j \<Longrightarrow> bit_length n = Suc j"
proof -
  assume lo: "2 ^ j \<le> n" and hi: "n < 2 ^ Suc j"
  have "bit_length n \<le> Suc j" using hi by (rule bit_length_le)
  moreover have "\<not> bit_length n \<le> j"
  proof
    assume "bit_length n \<le> j"
    then have "(2::nat) ^ bit_length n \<le> 2 ^ j" by (simp add: power_increasing)
    with bit_length_lt [of n] lo show False by linarith
  qed
  ultimately show ?thesis by simp
qed

lemma round_double_binade:
  assumes s: "\<bar>x\<bar> * 2 ^ 1074 = c * 2 ^ k" and lo: "2 ^ 52 \<le> c" and hi: "c < 2 ^ 53"
  shows "round_double x =
           (let q = nat \<lfloor>c\<rfloor>;
                m = (if 2 * (c - real q) > 1 \<or> (2 * (c - real q) = 1 \<and> odd q)
                     then (q + 1) * 2 ^ k else q * 2 ^ k)
            in if m \<ge> 2 ^ 2098 then (if x < 0 then NInf else PInf)
               else Fin ((if x < 0 then - real m else real m) / 2 ^ 1074))"
proof -
  define n where "n = nat \<lfloor>c * 2 ^ k\<rfloor>"
  have p: "(0::real) < 2 ^ k" by simp
  have "2 ^ 52 * 2 ^ k \<le> c * 2 ^ k" using lo by simp
  then have l1: "real (2 ^ (52 + k)) \<le> c * 2 ^ k" by (simp add: power_add)
  have "c * 2 ^ k < 2 ^ 53 * 2 ^ k" using hi by simp
  then have h1: "c * 2 ^ k < real (2 ^ Suc (52 + k))" by (simp add: power_add)
  have l3: "(2::int) ^ (52 + k) \<le> \<lfloor>c * 2 ^ k\<rfloor>" using l1 by (simp add: le_floor_iff)
  then have nn: "0 \<le> \<lfloor>c * 2 ^ k\<rfloor>" by (rule order_trans [rotated]) simp
  have "int (2 ^ (52 + k)) \<le> int n" using l3 nn by (simp add: n_def)
  then have l2: "2 ^ (52 + k) \<le> n" by (simp only: of_nat_le_iff)
  have h3: "\<lfloor>c * 2 ^ k\<rfloor> < (2::int) ^ Suc (52 + k)" using h1 by (simp add: floor_less_iff)
  have "int n < int (2 ^ Suc (52 + k))" using h3 nn by (simp add: n_def)
  then have h2: "n < 2 ^ Suc (52 + k)" by (simp only: of_nat_less_iff)
  have "bit_length n = Suc (52 + k)" using l2 h2 by (rule bit_length_eq)
  then have k: "bit_length n - 53 = k" by simp
  have d: "c * 2 ^ k / 2 ^ k = c" by simp
  have r: "2 * (c * 2 ^ k - real q * 2 ^ k) = (2 * (c - real q)) * 2 ^ k" for q :: nat
    by (simp add: algebra_simps)
  have g: "((2 * (c - real q)) * 2 ^ k > 2 ^ k) = (2 * (c - real q) > 1)" for q :: nat
    using p by simp
  have e: "((2 * (c - real q)) * 2 ^ k = 2 ^ k) = (2 * (c - real q) = 1)" for q :: nat
    using p by simp
  show ?thesis
    unfolding round_double_def Let_def s n_def [symmetric] k d r g e ..
qed

lemma round_double_up:
  assumes s: "\<bar>x\<bar> * 2 ^ 1074 = c * 2 ^ k" and lo: "2 ^ 52 \<le> c" and hi: "c < 2 ^ 53"
    and q: "nat \<lfloor>c\<rfloor> = q" and up: "1 < 2 * (c - real q)"
    and m: "q + 1 < 2 ^ 53" and k: "k \<le> 2045" and x: "0 \<le> x"
  shows "round_double x = Fin (real ((q + 1) * 2 ^ k) / 2 ^ 1074)"
proof -
  have "(q + 1) * 2 ^ k < 2 ^ 53 * 2 ^ k" using m by simp
  also have "(2::nat) ^ 53 * 2 ^ k \<le> 2 ^ 53 * 2 ^ 2045"
    using k by (intro mult_le_mono2 power_increasing) simp_all
  also have "(2::nat) ^ 53 * 2 ^ 2045 = 2 ^ 2098" by (simp flip: power_add)
  finally have c2: "(2 ^ 2098 \<le> (q + 1) * 2 ^ k) = False" by simp
  have c1: "(1 < 2 * (c - real q) \<or> (2 * (c - real q) = 1 \<and> odd q)) = True"
    using up by simp
  have c3: "(x < 0) = False" using x by simp
  show ?thesis
    unfolding round_double_binade [OF s lo hi] Let_def q
    by (simp only: c1 c2 c3 if_True if_False)
qed

text \<open>The floats that the literals \<open>22.3\<close> and \<open>24.8\<close> denote.\<close>

lemma double_22_3: "round_double (223 / 10) = Fin (6276891980647629 / 2 ^ 48)"
proof -
  have p: "(2::real) ^ 1074 = 2 ^ 48 * 2 ^ 1026" by (simp flip: power_add)
  have s: "\<bar>223 / 10 :: real\<bar> * 2 ^ 1074 = (223 / 10 * 2 ^ 48) * 2 ^ 1026"
    by (simp only: p abs_divide abs_numeral mult.assoc times_divide_eq_left)
  have "round_double (223 / 10) = Fin (real ((6276891980647628 + 1) * 2 ^ 1026) / 2 ^ 1074)"
    by (rule round_double_up [OF s]) simp_all
  also have "real ((6276891980647628 + 1) * 2 ^ 1026) / 2 ^ 1074 = 6276891980647629 / 2 ^ 48"
    by (simp only: p) simp
  finally show ?thesis .
qed

lemma double_24_8: "round_double (248 / 10) = Fin (6980579422424269 / 2 ^ 48)"
proof -
  have p: "(2::real) ^ 1074 = 2 ^ 48 * 2 ^ 1026" by (simp flip: power_add)
  have s: "\<bar>248 / 10 :: real\<bar> * 2 ^ 1074 = (248 / 10 * 2 ^ 48) * 2 ^ 1026"
    by (simp only: p abs_divide abs_numeral mult.assoc times_divide_eq_left)
  have "round_double (248 / 10) = Fin (real ((6980579422424268 + 1) * 2 ^ 1026) / 2 ^ 1074)"
    by (rule round_double_up [OF s]) simp_all
  also have "real ((6980579422424268 + 1) * 2 ^ 1026) / 2 ^ 1074 = 6980579422424269 / 2 ^ 48"
    by (simp only: p) simp
  finally show ?thesis .
qed

lemma is_double_48:
  assumes "m < 2 ^ 53"
  shows "is_double (real m / 2 ^ 48)"
proof (rule is_double_mantissa [OF assms, of 1026])
  have p: "(2::real) ^ 1074 = 2 ^ 48 * 2 ^ 1026" by (simp flip: power_add)
  show "\<bar>real m / 2 ^ 48\<bar> * 2 ^ 1074 = real (m * 2 ^ 1026)"
    by (simp only: p) simp
qed simp

text \<open>
  Rounding is correct: a finite result is a double, and it differs from the real number by at
  most half the spacing of the doubles there.
\<close>

lemma round_double_error:
  assumes "round_double x = Fin y"
  shows "\<bar>y - x\<bar> \<le> max (\<bar>x\<bar> / 2 ^ 53) (1 / 2 ^ 1075)"
proof -
  define s where "s = \<bar>x\<bar> * 2 ^ 1074"
  define n where "n = nat \<lfloor>s\<rfloor>"
  define k where "k = bit_length n - 53"
  define q where "q = nat \<lfloor>s / 2 ^ k\<rfloor>"
  define r where "r = s - real q * 2 ^ k"
  define m where
    "m = (if 2 * r > 2 ^ k \<or> (2 * r = 2 ^ k \<and> odd q) then (q + 1) * 2 ^ k else q * 2 ^ k)"
  have s0: "0 \<le> s" by (simp add: s_def)
  have p: "(0::real) < 2 ^ k" by simp
  have "0 \<le> s / 2 ^ k" using s0 by simp
  then have fq: "real q = of_int \<lfloor>s / 2 ^ k\<rfloor>" by (simp add: q_def)
  have "real q \<le> s / 2 ^ k" unfolding fq by (rule of_int_floor_le)
  then have "real q * 2 ^ k \<le> s" using p by (simp add: pos_le_divide_eq)
  then have r0: "0 \<le> r" by (simp add: r_def)
  have "s / 2 ^ k < real q + 1" unfolding fq by linarith
  then have "s < (real q + 1) * 2 ^ k" using p by (simp add: pos_divide_less_eq)
  then have r1: "r < 2 ^ k" by (simp add: r_def algebra_simps)
  have ms: "2 * \<bar>real m - s\<bar> \<le> 2 ^ k"
  proof (cases "2 * r > 2 ^ k \<or> (2 * r = 2 ^ k \<and> odd q)")
    case True
    then have "real m - s = 2 ^ k - r" by (simp add: m_def r_def algebra_simps)
    moreover have "2 ^ k \<le> 2 * r" using True by auto
    ultimately show ?thesis using r1 by simp
  next
    case False
    then have "real m - s = - r" by (simp add: m_def r_def)
    moreover have "2 * r \<le> 2 ^ k" using False by auto
    ultimately show ?thesis using r0 by simp
  qed
  define U :: real where "U = 2 ^ 1074"
  have U: "0 < U" by (simp add: U_def)
  have U2: "(2::real) ^ 1075 = 2 * U" by (simp add: U_def)
  have sU: "s = \<bar>x\<bar> * U" by (simp add: s_def U_def)
  have "round_double x =
          (if m \<ge> 2 ^ 2098 then (if x < 0 then NInf else PInf)
           else Fin ((if x < 0 then - real m else real m) / 2 ^ 1074))"
    unfolding round_double_def Let_def s_def [symmetric] n_def [symmetric] k_def [symmetric]
      q_def [symmetric] r_def [symmetric] m_def [symmetric] ..
  then have rd: "round_double x =
              (if m \<ge> 2 ^ 2098 then (if x < 0 then NInf else PInf)
               else Fin ((if x < 0 then - real m else real m) / U))"
    by (simp only: U_def)
  have y: "y = (if x < 0 then - real m else real m) / U"
    using assms unfolding rd by (simp split: if_splits)
  have xs: "x = (if x < 0 then - s else s) / U" using U by (simp add: sU)
  have "y - x = (if x < 0 then - (real m - s) else real m - s) / U"
    by (subst y, subst xs) (simp add: diff_divide_distrib)
  then have "\<bar>y - x\<bar> = \<bar>real m - s\<bar> / U" using U by (simp split: if_splits)
  also have "\<dots> \<le> (2 ^ k / 2) / U"
    using ms U by (intro divide_right_mono) simp_all
  finally have b: "\<bar>y - x\<bar> \<le> 2 ^ k / (2 * U)" by simp
  show ?thesis
  proof (cases "k = 0")
    case True
    then have "\<bar>y - x\<bar> \<le> 1 / 2 ^ 1075" using b by (simp only: U2) simp
    then show ?thesis by (simp only: le_max_iff_disj) simp
  next
    case False
    then have bl: "bit_length n - 1 = 52 + k" by (simp add: k_def)
    have "0 < n" using False by (cases "n = 0") (simp_all add: k_def bit_length_0)
    then have "2 ^ (52 + k) \<le> n" using bit_length_ge [of n] bl by simp
    then have "real (2 ^ (52 + k)) \<le> real n" by (simp only: of_nat_le_iff)
    moreover have "real n \<le> s" using s0 by (simp add: n_def)
    ultimately have "2 ^ 52 * 2 ^ k \<le> s" by (simp add: power_add)
    then have "2 ^ k \<le> s / 2 ^ 52" by (simp add: pos_le_divide_eq mult.commute)
    then have "2 ^ k / (2 * U) \<le> (s / 2 ^ 52) / (2 * U)"
      using U by (intro divide_right_mono) simp_all
    also have "(s / 2 ^ 52) / (2 * U) = \<bar>x\<bar> / 2 ^ 53" using U by (simp add: sU)
    finally have "\<bar>y - x\<bar> \<le> \<bar>x\<bar> / 2 ^ 53" using b by simp
    then show ?thesis by (simp only: le_max_iff_disj) simp
  qed
qed


lemma is_double_round_double:
  assumes "round_double x = Fin y"
  shows "is_double y"
proof -
  define s where "s = \<bar>x\<bar> * 2 ^ 1074"
  define n where "n = nat \<lfloor>s\<rfloor>"
  define k where "k = bit_length n - 53"
  define q where "q = nat \<lfloor>s / 2 ^ k\<rfloor>"
  define r where "r = s - real q * 2 ^ k"
  define c where "c = (if 2 * r > 2 ^ k \<or> (2 * r = 2 ^ k \<and> odd q) then q + 1 else q)"
  define m where "m = c * 2 ^ k"
  have m': "m = (if 2 * r > 2 ^ k \<or> (2 * r = 2 ^ k \<and> odd q) then (q + 1) * 2 ^ k else q * 2 ^ k)"
    by (simp add: m_def c_def)
  have s0: "0 \<le> s" by (simp add: s_def)
  have "s < real_of_int \<lfloor>s\<rfloor> + 1" by linarith
  also have "real_of_int \<lfloor>s\<rfloor> = real n" using s0 by (simp add: n_def)
  finally have sn: "s < real (n + 1)" by simp
  have "n + 1 \<le> 2 ^ bit_length n" using bit_length_lt [of n] by simp
  then have "real (n + 1) \<le> real (2 ^ bit_length n)" by (simp only: of_nat_le_iff)
  with sn have sb: "s < 2 ^ bit_length n" by simp
  have "bit_length n \<le> 53 + k" by (simp add: k_def)
  then have "(2::real) ^ bit_length n \<le> 2 ^ (53 + k)" by (simp add: power_increasing)
  with sb have "s < 2 ^ 53 * 2 ^ k" by (simp add: power_add)
  then have "s / 2 ^ k < 2 ^ 53" by (simp add: pos_divide_less_eq)
  then have "\<lfloor>s / 2 ^ k\<rfloor> < 2 ^ 53" by (simp add: floor_less_iff)
  moreover have "0 \<le> \<lfloor>s / 2 ^ k\<rfloor>" using s0 by simp
  ultimately have "int q < int (2 ^ 53)" by (simp add: q_def)
  then have "q < 2 ^ 53" by (simp only: of_nat_less_iff)
  then have c: "c \<le> 2 ^ 53" by (simp add: c_def)
  have md: "m mod 2 ^ (bit_length m - 53) = 0"
  proof (cases "c = 2 ^ 53")
    case True
    then have e: "m = 2 ^ (53 + k)" by (simp add: m_def power_add)
    have "bit_length m - 53 = Suc k" unfolding e bit_length_pow2 by simp
    moreover have "m = 2 ^ 52 * 2 ^ Suc k" unfolding e by (simp add: power_add)
    ultimately show ?thesis by simp
  next
    case False
    then have "c < 2 ^ 53" using c by simp
    then have "bit_length (c * 2 ^ k) - 53 \<le> k" by (rule bit_length_mult_pow2_le)
    then have "(2::nat) ^ (bit_length m - 53) dvd 2 ^ k"
      unfolding m_def by (rule le_imp_power_dvd)
    then have "2 ^ (bit_length m - 53) dvd m" unfolding m_def by (rule dvd_mult)
    then show ?thesis by simp
  qed
  have "round_double x =
          (if m \<ge> 2 ^ 2098 then (if x < 0 then NInf else PInf)
           else Fin ((if x < 0 then - real m else real m) / 2 ^ 1074))"
    unfolding round_double_def Let_def s_def [symmetric] n_def [symmetric] k_def [symmetric]
      q_def [symmetric] r_def [symmetric] m' [symmetric] ..
  with assms have lt: "m < 2 ^ 2098"
    and y: "y = (if x < 0 then - real m else real m) / 2 ^ 1074"
    by (simp_all split: if_splits)
  have "\<bar>y\<bar> * 2 ^ 1074 = real m" unfolding y by (simp split: if_splits)
  then show ?thesis using md lt by (rule is_double_of_units)
qed

subsection \<open>Clamping and the calibrate route\<close>

lemma clamped_Fin_eq: "clamped (Fin r) = Fin (max (- 10) (min 10 r))"
  by (simp add: py_max_def py_min_def max_def min_def)

lemma clamped_special: "clamped NaN = Fin 10 \<and> clamped PInf = Fin 10 \<and> clamped NInf = Fin (- 10)"
  by (simp add: py_max_def py_min_def)

lemma clamped_cases:
  "clamped x =
     (case x of
        NaN \<Rightarrow> Fin 10
      | NInf \<Rightarrow> Fin (- 10)
      | Fin r \<Rightarrow> Fin (max (- 10) (min 10 r))
      | PInf \<Rightarrow> Fin 10)"
  by (cases x) (simp_all add: clamped_Fin_eq clamped_special)

lemma float_of_int_value:
  "py_float_of_int n = Inr x \<Longrightarrow>
   x = Fin (if n < 0 then - real (round53 (nat \<bar>n\<bar>)) else real (round53 (nat \<bar>n\<bar>)))"
  by (simp add: py_float_of_int_def Let_def split: if_splits)

lemma clamped_float_of_int:
  assumes "py_float_of_int n = Inr x"
  shows "clamped x = Fin (real_of_int (max (- 10) (min 10 n)))"
proof (cases "nat \<bar>n\<bar> < 2 ^ 53")
  case True
  then have "round53 (nat \<bar>n\<bar>) = nat \<bar>n\<bar>" by (rule round53_small)
  then have "x = Fin (real_of_int n)"
    using float_of_int_value [OF assms] by (simp split: if_splits)
  then show ?thesis by (simp add: clamped_Fin_eq max_def min_def)
next
  case False
  then have big: "2 ^ 53 \<le> nat \<bar>n\<bar>" by simp
  then have m: "2 ^ 52 \<le> round53 (nat \<bar>n\<bar>)" by (rule round53_large)
  then have "10 \<le> round53 (nat \<bar>n\<bar>)" by simp
  then have r: "10 \<le> real (round53 (nat \<bar>n\<bar>))" by simp
  have "10 \<le> nat \<bar>n\<bar>" using big by simp
  then have n: "n \<le> - 10 \<or> 10 \<le> n" by linarith
  show ?thesis
  proof (cases "n < 0")
    case True
    then have "x = Fin (- real (round53 (nat \<bar>n\<bar>)))"
      using float_of_int_value [OF assms] by simp
    then show ?thesis using r n True by (simp add: clamped_Fin_eq max_def min_def)
  next
    case False
    then have "x = Fin (real (round53 (nat \<bar>n\<bar>)))"
      using float_of_int_value [OF assms] by simp
    then show ?thesis using r n False by (simp add: clamped_Fin_eq max_def min_def)
  qed
qed

lemma py_float_raises:
  "py_float fos v = Inl e \<Longrightarrow> e = TypeError \<or> e = ValueError \<or> e = OverflowError"
  by (cases v) (auto simp: py_float_of_int_def Let_def split: if_splits option.splits)

lemma flask_status_float_error: "py_float fos v = Inl e \<Longrightarrow> flask_status (Inl e) = 500"
  using py_float_raises [of fos v e] by auto

lemma set_calibration_float:
  "get_json body = Inr (JObj kvs) \<Longrightarrow> map_of kvs ''offset'' = Some v \<Longrightarrow>
   py_float fos v = Inr x \<Longrightarrow>
   set_calibration fos g body = (Inr (Status ''success'', 200), g\<lparr>state := clamped x\<rparr>)"
  by (cases v) (auto simp: set_calibration_def)

lemma set_calibration_raises:
  "get_json body = Inr (JObj kvs) \<Longrightarrow> map_of kvs ''offset'' = Some v \<Longrightarrow> v \<noteq> JNull \<Longrightarrow>
   py_float fos v = Inl e \<Longrightarrow> set_calibration fos g body = (Inl e, g)"
  by (simp add: set_calibration_def)

lemma set_calibration_missing:
  "get_json body = Inr (JObj kvs) \<Longrightarrow>
   map_of kvs ''offset'' = None \<or> map_of kvs ''offset'' = Some JNull \<Longrightarrow>
   set_calibration fos g body = (Inr (Status ''error'', 400), g)"
  by (auto simp: set_calibration_def)

lemma get_sensor_data_offset:
  "\<exists>t w. get_sensor_data rnd g hw = Inr (Data t w (state g), 200)"
  by (cases "mode_of g") (simp_all add: get_sensor_data_ready get_sensor_data_fallback)

lemma digits_of_pow2: "(2::int) ^ 1024 < 10 ^ default_max_str_digits"
proof -
  have "(2::int) ^ 1024 < 10 ^ 1024" by (rule power_strict_mono) simp_all
  also have "(10::int) ^ 1024 \<le> 10 ^ default_max_str_digits"
    by (rule power_increasing) (simp_all add: default_max_str_digits_def)
  finally show ?thesis .
qed

lemma get_json_pow2:
  "get_json (JsonText (JObj [(''offset'', JInt (2 ^ 1024))])) =
     Inr (JObj [(''offset'', JInt (2 ^ 1024))])"
proof -
  have "\<bar>2 ^ 1024 :: int\<bar> = 2 ^ 1024" by simp
  then have "int_digits_ok (JInt (2 ^ 1024))"
    unfolding int_digits_ok.simps using digits_of_pow2 by simp
  then show ?thesis by simp
qed

text \<open>
  Where the calibrate route does clamp a number: every float, and every integer that
  \<open>float()\<close> converts.
\<close>

lemma set_calibration_number:
  assumes "get_json body = Inr (JObj kvs)" and "map_of kvs ''offset'' = Some v"
  shows
    "(v = JFloat x \<longrightarrow>
        set_calibration fos g body =
          (Inr (Status ''success'', 200),
           g\<lparr>state := (case x of
                          NaN \<Rightarrow> Fin 10
                        | NInf \<Rightarrow> Fin (- 10)
                        | Fin r \<Rightarrow> Fin (max (- 10) (min 10 r))
                        | PInf \<Rightarrow> Fin 10)\<rparr>)) \<and>
     (v = JInt n \<and> \<bar>n\<bar> < 2 ^ 1024 - 2 ^ 970 \<longrightarrow>
        set_calibration fos g body =
          (Inr (Status ''success'', 200),
           g\<lparr>state := Fin (real_of_int (max (- 10) (min 10 n)))\<rparr>))"
proof -
  have fl: "set_calibration fos g body =
              (Inr (Status ''success'', 200), g\<lparr>state := clamped x\<rparr>)"
    if "v = JFloat x"
    using assms that by (simp add: set_calibration_float)
  have small: "set_calibration fos g body =
                 (Inr (Status ''success'', 200),
                  g\<lparr>state := Fin (real_of_int (max (- 10) (min 10 n)))\<rparr>)"
    if v: "v = JInt n" and n: "\<bar>n\<bar> < 2 ^ 1024 - 2 ^ 970"
  proof -
    have "py_float_of_int n \<noteq> Inl OverflowError"
      using n by (simp add: float_of_int_overflow_iff)
    then obtain y where y: "py_float_of_int n = Inr y"
      by (auto simp: py_float_of_int_def Let_def split: if_splits)
    then have "py_float fos v = Inr y" using v by simp
    from set_calibration_float [OF assms this] clamped_float_of_int [OF y]
    show ?thesis by simp
  qed
  show ?thesis
    using fl small clamped_cases [of x] by auto
qed

section \<open>Properties of the routes\<close>

text \<open>
  C1: every numeric \<open>offset\<close> should be answered with \<open>{"status": "success"}\<close> and stored
  clamped. The handler does not do so for a large integer: an integer of magnitude
  \<open>2 ^ 1024 - 2 ^ 970\<close> or more that the parser accepts reaches \<open>float(offset)\<close>, which raises
  \<open>OverflowError\<close>; the exception leaves the handler, the framework answers with status 500
  and the stored offset stays as it was. The float of the same size, \<open>inf\<close> (what \<open>1e400\<close>
  parses to), is accepted and stored as \<open>10.0\<close>.
\<close>

theorem calibrate_huge_int_raises:
  assumes "get_json body = Inr (JObj kvs)"
  shows
    "(map_of kvs ''offset'' = Some (JInt n) \<and> 2 ^ 1024 - 2 ^ 970 \<le> \<bar>n\<bar> \<longrightarrow>
        set_calibration fos g body = (Inl OverflowError, g) \<and>
        flask_status (fst (set_calibration fos g body)) = 500) \<and>
     (map_of kvs ''offset'' = Some (JFloat PInf) \<longrightarrow>
        set_calibration fos g body = (Inr (Status ''success'', 200), g\<lparr>state := Fin 10\<rparr>))"
proof -
  have big: "set_calibration fos g body = (Inl OverflowError, g)"
    if v: "map_of kvs ''offset'' = Some (JInt n)" and n: "2 ^ 1024 - 2 ^ 970 \<le> \<bar>n\<bar>"
  proof -
    have "py_float fos (JInt n) = Inl OverflowError"
      using n by (simp add: float_of_int_overflow_iff)
    then show ?thesis using set_calibration_raises [OF assms v] by simp
  qed
  have inf: "set_calibration fos g body = (Inr (Status ''success'', 200), g\<lparr>state := Fin 10\<rparr>)"
    if v: "map_of kvs ''offset'' = Some (JFloat PInf)"
    using set_calibration_float [OF assms v, of fos PInf g] by (simp add: clamped_special)
  show ?thesis using big inf by simp
qed

theorem calibrate_huge_int_raises_witness:
  "set_calibration Map.empty \<lparr>temp_sensor = None, soil_sensor = None, state = Fin 0\<rparr>
       (JsonText (JObj [(''offset'', JInt (2 ^ 1024))])) =
     (Inl OverflowError, \<lparr>temp_sensor = None, soil_sensor = None, state = Fin 0\<rparr>) \<and>
   flask_status
     (fst (set_calibration Map.empty \<lparr>temp_sensor = None, soil_sensor = None, state = Fin 0\<rparr>
        (JsonText (JObj [(''offset'', JInt (2 ^ 1024))])))) = 500 \<and>
   set_calibration Map.empty \<lparr>temp_sensor = None, soil_sensor = None, state = Fin 0\<rparr>
       (JsonText (JObj [(''offset'', JFloat PInf)])) =
     (Inr (Status ''success'', 200), \<lparr>temp_sensor = None, soil_sensor = None, state = Fin 10\<rparr>)"
proof -
  let ?g = "\<lparr>temp_sensor = None, soil_sensor = None, state = Fin 0\<rparr>"
  have k1: "map_of [(''offset'', JInt (2 ^ 1024))] ''offset'' = Some (JInt (2 ^ 1024))"
    by (simp only: map_of.simps fst_conv snd_conv fun_upd_same)
  have n: "(2 ^ 1024 - 2 ^ 970 :: int) \<le> \<bar>2 ^ 1024\<bar>" by simp
  have j2: "get_json (JsonText (JObj [(''offset'', JFloat PInf)])) =
              Inr (JObj [(''offset'', JFloat PInf)])"
    by simp
  have k2: "map_of [(''offset'', JFloat PInf)] ''offset'' = Some (JFloat PInf)" by simp
  from calibrate_huge_int_raises [OF get_json_pow2, of "2 ^ 1024" Map.empty ?g] k1 n
  have a: "set_calibration Map.empty ?g (JsonText (JObj [(''offset'', JInt (2 ^ 1024))])) =
             (Inl OverflowError, ?g) \<and>
           flask_status (fst (set_calibration Map.empty ?g
             (JsonText (JObj [(''offset'', JInt (2 ^ 1024))])))) = 500"
    by blast
  from calibrate_huge_int_raises [OF j2, of _ Map.empty ?g] k2
  have b: "set_calibration Map.empty ?g (JsonText (JObj [(''offset'', JFloat PInf)])) =
             (Inr (Status ''success'', 200), ?g\<lparr>state := Fin 10\<rparr>)"
    by blast
  show ?thesis using a b by simp
qed

text \<open>
  C2: an \<open>offset\<close> that is absent or not a number should be answered with status 400 and
  \<open>{"status": "error"}\<close>, the stored offset unchanged. The handler does so when the
  \<open>offset\<close> is absent or \<open>null\<close>. An \<open>offset\<close> that is present and that \<open>float()\<close> does not
  convert (a list, an object, a string that is no float literal) is not answered with 400:
  the exception of \<open>float()\<close> leaves the handler, the framework answers with status 500, and
  the stored offset is unchanged.
\<close>

theorem calibrate_non_numeric_raises:
  assumes "get_json body = Inr (JObj kvs)"
  shows
    "(map_of kvs ''offset'' = None \<or> map_of kvs ''offset'' = Some JNull \<longrightarrow>
        set_calibration fos g body = (Inr (Status ''error'', 400), g)) \<and>
     (map_of kvs ''offset'' = Some v \<and> v \<noteq> JNull \<and> py_float fos v = Inl e \<longrightarrow>
        set_calibration fos g body = (Inl e, g) \<and>
        flask_status (fst (set_calibration fos g body)) = 500) \<and>
     (map_of kvs ''offset'' = Some (JList xs) \<longrightarrow>
        set_calibration fos g body = (Inl TypeError, g)) \<and>
     (map_of kvs ''offset'' = Some (JObj ys) \<longrightarrow>
        set_calibration fos g body = (Inl TypeError, g)) \<and>
     (map_of kvs ''offset'' = Some (JStr s) \<and> fos s = None \<longrightarrow>
        set_calibration fos g body = (Inl ValueError, g))"
proof -
  have r: "set_calibration fos g body = (Inl e', g) \<and>
           flask_status (fst (set_calibration fos g body)) = 500"
    if "map_of kvs ''offset'' = Some v'" and "v' \<noteq> JNull" and "py_float fos v' = Inl e'"
    for v' e'
    using set_calibration_raises [OF assms that] flask_status_float_error [OF that(3)] by simp
  have m: "set_calibration fos g body = (Inr (Status ''error'', 400), g)"
    if "map_of kvs ''offset'' = None \<or> map_of kvs ''offset'' = Some JNull"
    using assms that by (rule set_calibration_missing)
  show ?thesis
    using m r [of v e] r [of "JList xs" TypeError] r [of "JObj ys" TypeError]
      r [of "JStr s" ValueError]
    by auto
qed

theorem calibrate_non_numeric_raises_witness:
  "set_calibration Map.empty \<lparr>temp_sensor = None, soil_sensor = None, state = Fin 3\<rparr>
       (JsonText (JObj [(''offset'', JList [])])) =
     (Inl TypeError, \<lparr>temp_sensor = None, soil_sensor = None, state = Fin 3\<rparr>) \<and>
   flask_status
     (fst (set_calibration Map.empty \<lparr>temp_sensor = None, soil_sensor = None, state = Fin 3\<rparr>
        (JsonText (JObj [(''offset'', JList [])])))) = 500 \<and>
   set_calibration Map.empty \<lparr>temp_sensor = None, soil_sensor = None, state = Fin 3\<rparr>
       (JsonText (JObj [(''offset'', JStr ''abc'')])) =
     (Inl ValueError, \<lparr>temp_sensor = None, soil_sensor = None, state = Fin 3\<rparr>) \<and>
   set_calibration Map.empty \<lparr>temp_sensor = None, soil_sensor = None, state = Fin 3\<rparr>
       (JsonText (JObj [])) =
     (Inr (Status ''error'', 400), \<lparr>temp_sensor = None, soil_sensor = None, state = Fin 3\<rparr>)"
proof -
  let ?g = "\<lparr>temp_sensor = None, soil_sensor = None, state = Fin 3\<rparr>"
  have j1: "get_json (JsonText (JObj [(''offset'', JList [])])) = Inr (JObj [(''offset'', JList [])])"
    by simp
  have j2: "get_json (JsonText (JObj [(''offset'', JStr ''abc'')])) =
              Inr (JObj [(''offset'', JStr ''abc'')])"
    by simp
  have j3: "get_json (JsonText (JObj [])) = Inr (JObj [])" by simp
  show ?thesis
    using calibrate_non_numeric_raises [OF j1, of Map.empty ?g "JList []" TypeError "[]"]
      calibrate_non_numeric_raises [OF j2, of Map.empty ?g _ _ _ _ "''abc''"]
      calibrate_non_numeric_raises [OF j3, of Map.empty ?g]
    by simp
qed

text \<open>
  C3: in fallback mode every \<open>GET /data\<close> response has temperature \<open>20.0\<close> and
  \<open>is_wet\<close> false, whatever the stored calibration offset is; the offset is not added to the
  fallback temperature and is still reported in \<open>calibration_offset\<close>.
\<close>

theorem fallback_data_without_offset:
  "mode_of g = FallbackMode \<Longrightarrow>
   get_sensor_data rnd g hw = Inr (Data (Some (Fin 20)) (Some False) (state g), 200)"
  by (rule get_sensor_data_fallback)

theorem fallback_data_without_offset_witness:
  "mode_of \<lparr>temp_sensor = None, soil_sensor = None, state = Fin 5\<rparr> = FallbackMode \<and>
   get_sensor_data Fin \<lparr>temp_sensor = None, soil_sensor = None, state = Fin 5\<rparr>
       \<lparr>get_temperature = Some (Fin 31), is_active = Some False\<rparr> =
     Inr (Data (Some (Fin 20)) (Some False) (Fin 5), 200)"
proof -
  have m: "mode_of \<lparr>temp_sensor = None, soil_sensor = None, state = Fin 5\<rparr> = FallbackMode"
    by (simp add: mode_of_def)
  show ?thesis
    using m fallback_data_without_offset [OF m, of Fin "\<lparr>get_temperature = Some (Fin 31), is_active = Some False\<rparr>"]
    by simp
qed

text \<open>
  C4: in hardware mode, when both reads succeed, the response temperature is the raw reading
  plus the stored offset, as floats are added: the exact sum whenever that is a double, and
  otherwise, when finite, a double within half the spacing of the doubles (a relative error
  of at most \<open>2 ^ -53\<close>) of the exact sum. \<open>is_wet\<close> is the negation of the raw active
  signal. With stored offset \<open>0.0\<close>, raw temperature \<open>22.3\<close> (the float of that literal,
  \<open>6276891980647629 / 2 ^ 48\<close>) and raw active true, the response is temperature \<open>22.3\<close>,
  \<open>is_wet\<close> false, offset \<open>0.0\<close>.
\<close>

theorem ready_data_calibrated:
  assumes "mode_of g = Ready"
    and "get_temperature hw = Some raw_temp"
    and "is_active hw = Some raw_active"
  shows
    "get_sensor_data round_double g hw =
       Inr (Data (Some (py_add round_double raw_temp (state g))) (Some (\<not> raw_active))
              (state g), 200) \<and>
     (raw_temp = Fin a \<and> state g = Fin b \<and> is_double (a + b) \<longrightarrow>
        get_sensor_data round_double g hw =
          Inr (Data (Some (Fin (a + b))) (Some (\<not> raw_active)) (Fin b), 200)) \<and>
     (raw_temp = Fin a \<and> state g = Fin b \<and>
      get_sensor_data round_double g hw =
        Inr (Data (Some (Fin y)) (Some (\<not> raw_active)) (Fin b), 200) \<longrightarrow>
        is_double y \<and> \<bar>y - (a + b)\<bar> \<le> max (\<bar>a + b\<bar> / 2 ^ 53) (1 / 2 ^ 1075)) \<and>
     (raw_temp = round_double (223 / 10) \<and> state g = Fin 0 \<and> raw_active \<longrightarrow>
        get_sensor_data round_double g hw =
          Inr (Data (Some (round_double (223 / 10))) (Some False) (Fin 0), 200) \<and>
        round_double (223 / 10) = Fin (6276891980647629 / 2 ^ 48))"
proof -
  have d: "get_sensor_data round_double g hw =
             Inr (Data (Some (py_add round_double raw_temp (state g))) (Some (\<not> raw_active))
                    (state g), 200)"
    using assms by (simp add: get_sensor_data_ready)
  have x: "py_add round_double (Fin a) (Fin b) = Fin (a + b)" if "is_double (a + b)"
    using round_double_exact [OF that] by simp
  define c :: real where "c = 6276891980647629 / 2 ^ 48"
  have "is_double (real 6276891980647629 / 2 ^ 48)" by (rule is_double_48) simp
  then have i: "is_double c" by (simp add: c_def)
  have l: "round_double (223 / 10) = Fin c" unfolding c_def by (rule double_22_3)
  have z: "py_add round_double (round_double (223 / 10)) (Fin 0) = round_double (223 / 10)"
    unfolding l using round_double_exact [OF i] by simp
  have w: "is_double y \<and> \<bar>y - (a + b)\<bar> \<le> max (\<bar>a + b\<bar> / 2 ^ 53) (1 / 2 ^ 1075)"
    if "raw_temp = Fin a" and "state g = Fin b"
      and "get_sensor_data round_double g hw =
             Inr (Data (Some (Fin y)) (Some (\<not> raw_active)) (Fin b), 200)"
  proof -
    have "round_double (a + b) = Fin y" using d that by simp
    then show ?thesis using is_double_round_double round_double_error by blast
  qed
  show ?thesis using d x z w double_22_3 by auto
qed

theorem ready_data_calibrated_witness:
  "get_sensor_data round_double
       \<lparr>temp_sensor = Some W1ThermSensor, soil_sensor = Some (DigitalInputDevice 17), state = Fin 0\<rparr>
       \<lparr>get_temperature = Some (round_double (223 / 10)), is_active = Some True\<rparr> =
     Inr (Data (Some (Fin (6276891980647629 / 2 ^ 48))) (Some False) (Fin 0), 200) \<and>
   get_sensor_data round_double
       \<lparr>temp_sensor = Some W1ThermSensor, soil_sensor = Some (DigitalInputDevice 17),
          state = Fin (5 / 2)\<rparr>
       \<lparr>get_temperature = Some (Fin (6276891980647629 / 2 ^ 48)), is_active = Some False\<rparr> =
     Inr (Data (Some (Fin (6980579422424269 / 2 ^ 48))) (Some True) (Fin (5 / 2)), 200) \<and>
   is_double (6980579422424269 / 2 ^ 48)"
proof -
  let ?g0 = "\<lparr>temp_sensor = Some W1ThermSensor, soil_sensor = Some (DigitalInputDevice 17),
               state = Fin 0\<rparr>"
  let ?g1 = "\<lparr>temp_sensor = Some W1ThermSensor, soil_sensor = Some (DigitalInputDevice 17),
               state = Fin (5 / 2)\<rparr>"
  let ?h0 = "\<lparr>get_temperature = Some (round_double (223 / 10)), is_active = Some True\<rparr>"
  let ?h1 = "\<lparr>get_temperature = Some (Fin (6276891980647629 / 2 ^ 48)), is_active = Some False\<rparr>"
  have m0: "mode_of ?g0 = Ready" by (simp add: mode_of_def)
  have m1: "mode_of ?g1 = Ready" by (simp add: mode_of_def)
  have t0: "get_temperature ?h0 = Some (round_double (223 / 10))" by simp
  have a0: "is_active ?h0 = Some True" by simp
  have t1: "get_temperature ?h1 = Some (Fin (6276891980647629 / 2 ^ 48))" by simp
  have a1: "is_active ?h1 = Some False" by simp
  have s: "(6276891980647629 / 2 ^ 48 + 5 / 2 :: real) = real 6980579422424269 / 2 ^ 48" by simp
  have "is_double (real 6980579422424269 / 2 ^ 48)" by (rule is_double_48) simp
  then have i: "is_double (6276891980647629 / 2 ^ 48 + 5 / 2)" by (simp only: s)
  have f: "state ?g0 = Fin 0" by simp
  have f1: "state ?g1 = Fin (5 / 2)" by simp
  from ready_data_calibrated [OF m0 t0 a0, of 0 0] f
  have "get_sensor_data round_double ?g0 ?h0 =
          Inr (Data (Some (round_double (223 / 10))) (Some False) (Fin 0), 200) \<and>
        round_double (223 / 10) = Fin (6276891980647629 / 2 ^ 48)"
    by blast
  then have r0: "get_sensor_data round_double ?g0 ?h0 =
              Inr (Data (Some (Fin (6276891980647629 / 2 ^ 48))) (Some False) (Fin 0), 200)"
    by (elim conjE) simp
  have "get_sensor_data round_double ?g1 ?h1 =
          Inr (Data (Some (Fin (6276891980647629 / 2 ^ 48 + 5 / 2))) (Some (\<not> False))
                 (Fin (5 / 2)), 200)"
    using i f1 ready_data_calibrated [OF m1 t1 a1, of "6276891980647629 / 2 ^ 48" "5 / 2"]
    by blast
  then have "is_double (6276891980647629 / 2 ^ 48 + 5 / 2)"
    using t1 f1
      ready_data_calibrated [OF m1 t1 a1, of "6276891980647629 / 2 ^ 48" "5 / 2"
        "6276891980647629 / 2 ^ 48 + 5 / 2"]
    by blast
  then have d1: "is_double (6980579422424269 / 2 ^ 48)" by (simp only: s) simp
  have r1: "get_sensor_data round_double ?g1 ?h1 =
              Inr (Data (Some (Fin (6276891980647629 / 2 ^ 48 + 5 / 2))) (Some True) (Fin (5 / 2)), 200)"
    using \<open>get_sensor_data round_double ?g1 ?h1 =
          Inr (Data (Some (Fin (6276891980647629 / 2 ^ 48 + 5 / 2))) (Some (\<not> False))
                 (Fin (5 / 2)), 200)\<close>
    by simp
  have r1': "get_sensor_data round_double ?g1 ?h1 =
              Inr (Data (Some (Fin (6980579422424269 / 2 ^ 48))) (Some True) (Fin (5 / 2)), 200)"
    using r1 by (simp only: s) simp
  show ?thesis using r0 r1' d1 by (intro conjI)
qed

text \<open>
  C5: every \<open>GET /data\<close> request completes with status 200 and reports the stored offset;
  in hardware mode each field comes from its own read, so a failed read makes that field
  \<open>null\<close> and leaves the other field as its read gave it. No read failure leaves the
  handler as an exception.
\<close>

theorem sensor_failure_is_null_field:
  "(\<exists>t w. get_sensor_data rnd g hw = Inr (Data t w (state g), 200)) \<and>
   (mode_of g = Ready \<longrightarrow>
      get_sensor_data rnd g hw =
        Inr (Data (map_option (\<lambda>raw_temp. py_add rnd raw_temp (state g)) (get_temperature hw))
                  (map_option Not (is_active hw)) (state g), 200)) \<and>
   (mode_of g = Ready \<and> get_temperature hw = None \<and> is_active hw = Some raw_active \<longrightarrow>
      get_sensor_data rnd g hw = Inr (Data None (Some (\<not> raw_active)) (state g), 200)) \<and>
   (mode_of g = Ready \<and> get_temperature hw = Some raw_temp \<and> is_active hw = None \<longrightarrow>
      get_sensor_data rnd g hw =
        Inr (Data (Some (py_add rnd raw_temp (state g))) None (state g), 200))"
proof -
  have "\<exists>t w. get_sensor_data rnd g hw = Inr (Data t w (state g), 200)"
    by (cases "mode_of g") (simp_all add: get_sensor_data_ready get_sensor_data_fallback)
  then show ?thesis by (simp add: get_sensor_data_ready)
qed

theorem sensor_failure_is_null_field_witness:
  "get_sensor_data Fin
       \<lparr>temp_sensor = Some W1ThermSensor, soil_sensor = Some (DigitalInputDevice 17), state = Fin 3\<rparr>
       \<lparr>get_temperature = None, is_active = Some True\<rparr> =
     Inr (Data None (Some False) (Fin 3), 200) \<and>
   get_sensor_data Fin
       \<lparr>temp_sensor = Some W1ThermSensor, soil_sensor = Some (DigitalInputDevice 17), state = Fin 3\<rparr>
       \<lparr>get_temperature = Some (Fin 21), is_active = None\<rparr> =
     Inr (Data (Some (Fin 24)) None (Fin 3), 200)"
proof -
  let ?g = "\<lparr>temp_sensor = Some W1ThermSensor, soil_sensor = Some (DigitalInputDevice 17), state = Fin 3\<rparr>"
  have m: "mode_of ?g = Ready" by (simp add: mode_of_def)
  show ?thesis
    using m
      sensor_failure_is_null_field [of Fin ?g "\<lparr>get_temperature = None, is_active = Some True\<rparr>" True]
      sensor_failure_is_null_field [of Fin ?g "\<lparr>get_temperature = Some (Fin 21), is_active = None\<rparr>" _ "Fin 21"]
    by simp
qed

text \<open>
  C6: the stored calibration offset is \<open>0.0\<close> at startup, lies in \<open>[-10.0, 10.0]\<close> after
  every sequence of requests, and every single request preserves the bound.
\<close>

theorem offset_always_in_range:
  "state (sensor_initialization new_temp new_soil) = Fin 0 \<and>
   py_le (Fin (- 10)) (state (serve rnd fos (sensor_initialization new_temp new_soil) rs)) \<and>
   py_le (state (serve rnd fos (sensor_initialization new_temp new_soil) rs)) (Fin 10) \<and>
   (py_le (Fin (- 10)) (state g) \<and> py_le (state g) (Fin 10) \<longrightarrow>
      py_le (Fin (- 10)) (state (snd (handle rnd fos g r))) \<and>
      py_le (state (snd (handle rnd fos g r))) (Fin 10))"
proof -
  have "py_le (Fin (- 10)) (state (sensor_initialization new_temp new_soil)) \<and>
        py_le (state (sensor_initialization new_temp new_soil)) (Fin 10)"
    by (simp add: init_state py_le_def)
  from serve_in_range [OF this] show ?thesis
    using handle_in_range by (simp add: init_state)
qed

theorem offset_always_in_range_witness:
  "state (snd (handle Fin Map.empty \<lparr>temp_sensor = None, soil_sensor = None, state = Fin 4\<rparr>
                 (PostCalibrate (JsonText (JObj [(''offset'', JFloat (Fin (- 25)))]))))) = Fin (- 10) \<and>
   py_le (Fin (- 10)) (Fin (- 10)) \<and> py_le (Fin (- 10)) (Fin 10)"
proof -
  let ?g = "\<lparr>temp_sensor = None, soil_sensor = None, state = Fin 4\<rparr>"
  have h: "py_le (Fin (- 10)) (state ?g) \<and> py_le (state ?g) (Fin 10)"
    by (simp add: py_le_def)
  have e: "state (snd (handle Fin Map.empty ?g (PostCalibrate (JsonText (JObj [(''offset'', JFloat (Fin (- 25)))]))))) = Fin (- 10)"
    by (simp add: set_calibration_def py_max_def py_min_def)
  show ?thesis
    using h e offset_always_in_range [of None "\<lambda>_. None" Fin Map.empty "[]" ?g
        "PostCalibrate (JsonText (JObj [(''offset'', JFloat (Fin (- 25)))]))"]
    by simp
qed

text \<open>
  C8: no request changes the two sensor handles, so the operating mode after any sequence of
  requests is the mode that sensor initialization chose at process start.
\<close>

theorem mode_never_changes:
  "mode_of (serve rnd fos g rs) = mode_of g \<and>
   temp_sensor (serve rnd fos g rs) = temp_sensor g \<and>
   soil_sensor (serve rnd fos g rs) = soil_sensor g \<and>
   mode_of (snd (handle rnd fos g r)) = mode_of g \<and>
   mode_of (serve rnd fos (sensor_initialization new_temp new_soil) rs) =
     (if new_temp \<noteq> None \<and> new_soil SOIL_SENSOR_PIN \<noteq> None then Ready else FallbackMode)"
proof -
  have m: "mode_of (serve rnd fos h rs) = mode_of h" for h
    by (simp add: mode_of_def serve_sensors)
  have "mode_of (snd (handle rnd fos g r)) = mode_of g"
    by (simp add: mode_of_def handle_sensors)
  then show ?thesis
    by (simp add: m serve_sensors init_mode)
qed

text \<open>
  C9: an \<open>offset\<close> that is a string which \<open>float()\<close> parses is accepted: the response is
  \<open>{"status": "success"}\<close> and the stored offset is the parsed value clamped to
  \<open>[-10.0, 10.0]\<close>: the value itself when it lies in the interval, the nearer bound when it
  does not (\<open>10.0\<close> for \<open>nan\<close>, which no comparison moves).
\<close>

theorem string_offset_coerced:
  assumes "get_json body = Inr (JObj kvs)"
    and "map_of kvs ''offset'' = Some (JStr s)"
    and "float_of_str s = Some x"
  shows "set_calibration float_of_str g body =
           (Inr (Status ''success'', 200),
            g\<lparr>state := (case x of
                           NaN \<Rightarrow> Fin 10
                         | NInf \<Rightarrow> Fin (- 10)
                         | Fin r \<Rightarrow> Fin (max (- 10) (min 10 r))
                         | PInf \<Rightarrow> Fin 10)\<rparr>)"
proof -
  have "py_float float_of_str (JStr s) = Inr x" using assms(3) by simp
  from set_calibration_float [OF assms(1,2) this] show ?thesis
    by (simp only: clamped_cases)
qed

theorem string_offset_coerced_witness:
  "set_calibration [''2.5'' \<mapsto> Fin (5 / 2), ''15'' \<mapsto> Fin 15, ''-inf'' \<mapsto> NInf]
       \<lparr>temp_sensor = None, soil_sensor = None, state = Fin 0\<rparr>
       (JsonText (JObj [(''offset'', JStr ''15'')])) =
     (Inr (Status ''success'', 200), \<lparr>temp_sensor = None, soil_sensor = None, state = Fin 10\<rparr>) \<and>
   set_calibration [''2.5'' \<mapsto> Fin (5 / 2), ''15'' \<mapsto> Fin 15, ''-inf'' \<mapsto> NInf]
       \<lparr>temp_sensor = None, soil_sensor = None, state = Fin 0\<rparr>
       (JsonText (JObj [(''offset'', JStr ''2.5'')])) =
     (Inr (Status ''success'', 200), \<lparr>temp_sensor = None, soil_sensor = None, state = Fin (5 / 2)\<rparr>) \<and>
   set_calibration [''2.5'' \<mapsto> Fin (5 / 2), ''15'' \<mapsto> Fin 15, ''-inf'' \<mapsto> NInf]
       \<lparr>temp_sensor = None, soil_sensor = None, state = Fin 0\<rparr>
       (JsonText (JObj [(''offset'', JStr ''-inf'')])) =
     (Inr (Status ''success'', 200), \<lparr>temp_sensor = None, soil_sensor = None, state = Fin (- 10)\<rparr>)"
proof -
  let ?f = "[''2.5'' \<mapsto> Fin (5 / 2), ''15'' \<mapsto> Fin 15, ''-inf'' \<mapsto> NInf]"
  let ?g = "\<lparr>temp_sensor = None, soil_sensor = None, state = Fin 0\<rparr>"
  have j: "get_json (JsonText (JObj [(''offset'', JStr t)])) = Inr (JObj [(''offset'', JStr t)])"
    for t by simp
  have k: "map_of [(''offset'', JStr t)] ''offset'' = Some (JStr t)" for t by simp
  have p1: "?f ''15'' = Some (Fin 15)" by simp
  have p2: "?f ''2.5'' = Some (Fin (5 / 2))" by simp
  have p3: "?f ''-inf'' = Some NInf" by simp
  show ?thesis
    using string_offset_coerced [of _ _ _ ?f, OF j k p1, of ?g]
      string_offset_coerced [of _ _ _ ?f, OF j k p2, of ?g]
      string_offset_coerced [of _ _ _ ?f, OF j k p3, of ?g]
    by simp
qed

text \<open>
  C10: after initialization and any sequence of requests, either both sensor handles are
  present or both are absent; when either constructor failed at startup both are absent and
  every \<open>GET /data\<close> response is the pair of fallback constants \<open>(20.0, false)\<close>.
\<close>

theorem fallback_all_or_nothing:
  "((temp_sensor (serve rnd fos (sensor_initialization new_temp new_soil) rs) = None) =
    (soil_sensor (serve rnd fos (sensor_initialization new_temp new_soil) rs) = None)) \<and>
   (new_temp = None \<or> new_soil SOIL_SENSOR_PIN = None \<longrightarrow>
      temp_sensor (serve rnd fos (sensor_initialization new_temp new_soil) rs) = None \<and>
      soil_sensor (serve rnd fos (sensor_initialization new_temp new_soil) rs) = None \<and>
      get_sensor_data rnd (serve rnd fos (sensor_initialization new_temp new_soil) rs) hw =
        Inr (Data (Some (Fin 20)) (Some False)
               (state (serve rnd fos (sensor_initialization new_temp new_soil) rs)), 200))"
proof -
  let ?init = "sensor_initialization new_temp new_soil"
  let ?g = "serve rnd fos ?init rs"
  have s: "temp_sensor ?g = temp_sensor ?init \<and> soil_sensor ?g = soil_sensor ?init"
    by (rule serve_sensors)
  have i: "(temp_sensor ?init = None) = (soil_sensor ?init = None)"
    by (simp add: sensor_initialization_def Let_def split: option.splits)
  have f: "new_temp = None \<or> new_soil SOIL_SENSOR_PIN = None \<Longrightarrow>
           temp_sensor ?init = None \<and> soil_sensor ?init = None"
    by (auto simp: sensor_initialization_def Let_def split: option.splits)
  have m: "temp_sensor ?g = None \<Longrightarrow> mode_of ?g = FallbackMode"
    by (simp add: mode_of_def)
  show ?thesis
    using s i f m get_sensor_data_fallback [of ?g rnd hw] by auto
qed

theorem fallback_all_or_nothing_witness:
  "get_sensor_data Fin
      (serve Fin Map.empty
         (sensor_initialization (Some W1ThermSensor) (\<lambda>pin. None))
         [PostCalibrate (JsonText (JObj [(''offset'', JFloat (Fin 3))]))])
      \<lparr>get_temperature = Some (Fin 31), is_active = Some False\<rparr> =
     Inr (Data (Some (Fin 20)) (Some False) (Fin 3), 200)"
proof -
  have e: "state (serve Fin Map.empty
         (sensor_initialization (Some W1ThermSensor) (\<lambda>pin. None))
         [PostCalibrate (JsonText (JObj [(''offset'', JFloat (Fin 3))]))]) = Fin 3"
    by (simp add: set_calibration_def sensor_initialization_def py_max_def py_min_def)
  show ?thesis
    using e fallback_all_or_nothing [of Fin Map.empty "Some W1ThermSensor" "\<lambda>pin. None"
        "[PostCalibrate (JsonText (JObj [(''offset'', JFloat (Fin 3))]))]"
        "\<lparr>get_temperature = Some (Fin 31), is_active = Some False\<rparr>"]
    by simp
qed

end
